theory Spec2Isabelle
  imports Complex_Main "HOL-Library.List_Lexorder" "HOL-Library.Log_Nat"
begin

section \<open>The bill splitter of \<^verbatim>\<open>assignment-1/src/core.ts\<close>\<close>

subsection \<open>Numbers\<close>

text \<open>
  A TypeScript \<^verbatim>\<open>number\<close> is an IEEE 754 binary64 value. The finite ones are rational
  numbers, so a number is a \<^typ>\<open>rat\<close> here, and every function of the program takes the
  arithmetic it runs on as its first argument:
  \<^item> \<open>Exact\<close>: the result of \<^verbatim>\<open>+ - * /\<close> is the exact rational result, the arithmetic in
    which the specification states its formulas;
  \<^item> \<open>Double\<close>: the exact result is rounded to the nearest binary64 value, ties to the
    even significand (53 bits, gradual underflow below \<open>2 powi - 1022\<close>), which is what
    the program computes as long as no operation overflows.
  \<^verbatim>\<open>NaN\<close>, the infinities and the sign of zero are not values of the model.
\<close>

datatype arith = Exact | Double

definition ilog2 :: "rat \<Rightarrow> int" where
  \<comment> \<open>for \<open>0 < a\<close>: the exponent \<open>e\<close> with \<open>2 powi e \<le> a < 2 powi (e + 1)\<close>\<close>
  "ilog2 a = (if 1 \<le> a then int (floorlog 2 (nat \<lfloor>a\<rfloor>)) - 1
              else - int (floorlog 2 (nat (\<lceil>1 / a\<rceil> - 1))))"

definition round_half_even :: "rat \<Rightarrow> int" where
  "round_half_even x = (let n = \<lfloor>x\<rfloor>; f = x - of_int n in
     if f < 1 / 2 then n else if 1 / 2 < f then n + 1 else if even n then n else n + 1)"

definition binary64 :: "rat \<Rightarrow> rat" where
  "binary64 x = (if x = 0 then 0 else
     let e = max (ilog2 \<bar>x\<bar>) (- 1022); q = 2 powi (e - 52)
     in of_int (round_half_even (x / q)) * q)"

fun rnd :: "arith \<Rightarrow> rat \<Rightarrow> rat" where
  "rnd Exact x = x"
| "rnd Double x = binary64 x"

definition fadd :: "arith \<Rightarrow> rat \<Rightarrow> rat \<Rightarrow> rat" where
  "fadd m a b = rnd m (a + b)"

definition fsub :: "arith \<Rightarrow> rat \<Rightarrow> rat \<Rightarrow> rat" where
  "fsub m a b = rnd m (a - b)"

definition fmul :: "arith \<Rightarrow> rat \<Rightarrow> rat \<Rightarrow> rat" where
  "fmul m a b = rnd m (a * b)"

definition fdiv :: "arith \<Rightarrow> rat \<Rightarrow> rat \<Rightarrow> rat" where
  \<comment> \<open>a zero divisor gives \<^verbatim>\<open>NaN\<close> or an infinity in the program and \<open>0\<close> here: see \<open>calculateItems\<close>\<close>
  "fdiv m a b = rnd m (a / b)"

definition Math_round :: "rat \<Rightarrow> rat" where
  \<comment> \<open>\<^verbatim>\<open>Math.round\<close>: the closest integer, a tie going towards \<open>+\<infinity>\<close>; always exact\<close>
  "Math_round x = of_int \<lfloor>x + 1 / 2\<rfloor>"

subsection \<open>Strings\<close>

text \<open>
  A JavaScript string is a sequence of UTF-16 code units. \<^verbatim>\<open>Array.prototype.sort\<close> without
  a comparator orders strings by their code units, lexicographically, which is the order
  of lists. \<open>str\<close> gives the code units of an ASCII literal.
\<close>

type_synonym jsstring = "nat list"

definition str :: "string \<Rightarrow> jsstring" where
  "str s = map of_char s"

subsection \<open>Input and output types\<close>

datatype BillItem =
    isShared: SharedBillItem (price: rat) (name: jsstring)
  | PersonalBillItem (price: rat) (name: jsstring) (person: jsstring)

record BillInput =
  date :: jsstring
  location :: jsstring
  tipPercentage :: rat
  items :: "BillItem list"

record PersonItem =
  name :: jsstring
  amount :: rat

text \<open>
  In the output \<open>date\<close> is \<open>None\<close> when the input date lies outside the fragment of
  \<^verbatim>\<open>Number()\<close> that \<open>formatDate\<close> models.
\<close>

record BillOutput =
  date :: "jsstring option"
  location :: jsstring
  subTotal :: rat
  tip :: rat
  totalAmount :: rat
  items :: "PersonItem list"

subsection \<open>formatDate\<close>

fun split_from :: "nat \<Rightarrow> jsstring \<Rightarrow> jsstring \<Rightarrow> jsstring list" where
  "split_from sep cur [] = [cur]"
| "split_from sep cur (c # cs) =
     (if c = sep then cur # split_from sep [] cs else split_from sep (cur @ [c]) cs)"

definition split :: "jsstring \<Rightarrow> nat \<Rightarrow> jsstring list" where
  \<comment> \<open>\<^verbatim>\<open>s.split(sep)\<close> for a separator of one code unit\<close>
  "split s sep = split_from sep [] s"

definition is_digit :: "nat \<Rightarrow> bool" where
  "is_digit c \<longleftrightarrow> 48 \<le> c \<and> c \<le> 57"

definition digits_value :: "jsstring \<Rightarrow> nat" where
  "digits_value s = foldl (\<lambda>v c. 10 * v + (c - 48)) 0 s"

text \<open>
  What the array destructuring binds: a missing element is \<^verbatim>\<open>undefined\<close>, and an element
  is the number that \<^verbatim>\<open>Number\<close> made of a part. \<^verbatim>\<open>Number\<close> is modelled on the empty string
  (the number 0) and on strings of at most 15 decimal digits, whose value is a binary64
  integer that prints without an exponent; \<open>Unmodelled\<close> stands for its result on every
  other string (signs, fractions, exponents, white space, \<^verbatim>\<open>NaN\<close>).
\<close>

datatype jsvalue = Undefined | Num nat | Unmodelled

definition Number :: "jsstring \<Rightarrow> jsvalue" where
  "Number s = (if list_all is_digit s \<and> length s \<le> 15 then Num (digits_value s) else Unmodelled)"

fun decimal :: "nat \<Rightarrow> jsstring" where
  "decimal n = (if n < 10 then [48 + n] else decimal (n div 10) @ [48 + n mod 10])"

declare decimal.simps [simp del]

fun toString :: "jsvalue \<Rightarrow> jsstring option" where
  \<comment> \<open>the string a template literal puts in place of \<^verbatim>\<open>${v}\<close>\<close>
  "toString Undefined = Some (str ''undefined'')"
| "toString (Num n) = Some (decimal n)"
| "toString Unmodelled = None"

definition element :: "jsvalue list \<Rightarrow> nat \<Rightarrow> jsvalue" where
  "element xs i = (if i < length xs then xs ! i else Undefined)"

definition formatDate :: "jsstring \<Rightarrow> jsstring option" where
  "formatDate d =
     (let parts = map Number (split d 45);
          year = element parts 0; month = element parts 1; day = element parts 2
      in case (toString year, toString month, toString day) of
           (Some y, Some m, Some dd) \<Rightarrow> Some (y @ [0x5E74] @ m @ [0x6708] @ dd @ [0x65E5])
         | _ \<Rightarrow> None)"

subsection \<open>Subtotal and tip\<close>

definition calculateSubTotal :: "arith \<Rightarrow> BillItem list \<Rightarrow> rat" where
  "calculateSubTotal m its = foldl (\<lambda>total item. fadd m total (price item)) 0 its"

definition calculateTip :: "arith \<Rightarrow> rat \<Rightarrow> rat \<Rightarrow> rat" where
  "calculateTip m sub tipPct =
     (let tip = fmul m sub (fdiv m tipPct 100)
      in fdiv m (Math_round (fmul m tip 10)) 10)"

subsection \<open>Participants\<close>

text \<open>
  A \<^verbatim>\<open>Set<string>\<close> keeps its elements in insertion order: a list without duplicates, to
  which \<open>Set_add\<close> appends a new element.
\<close>

definition Set_add :: "jsstring list \<Rightarrow> jsstring \<Rightarrow> jsstring list" where
  "Set_add s x = (if x \<in> set s then s else s @ [x])"

definition scanPersons :: "BillItem list \<Rightarrow> jsstring list" where
  "scanPersons its =
     (let persons = foldl (\<lambda>s item. if \<not> isShared item then Set_add s (person item) else s) [] its;
          hasSharedItems = list_ex isShared its;
          persons = (if hasSharedItems \<and> length persons = 0
                     then Set_add (Set_add persons (str ''Person 1'')) (str ''Person 2'')
                     else persons)
      in sort persons)"

subsection \<open>Amounts per person\<close>

text \<open>
  When there is no participant, \<open>sharedPerPerson\<close> is a division by zero: \<^verbatim>\<open>NaN\<close> or an
  infinity in the program, \<open>0\<close> here. No element of the result reads it, \<open>names\<close> being
  empty then. \<^verbatim>\<open>x || 0\<close> is \<open>0\<close> for a missing key and for the number zero.
\<close>

definition calculateItems :: "arith \<Rightarrow> BillItem list \<Rightarrow> rat \<Rightarrow> PersonItem list" where
  "calculateItems m its tipPct =
     (let names = scanPersons its;
          persons = length names;
          personalAmounts = foldl (\<lambda>pa nm.
              let personalItems = filter (\<lambda>item. \<not> isShared item \<and> person item = nm) its;
                  personalTotal = foldl (\<lambda>sum item. fadd m sum (price item)) 0 personalItems
              in pa(nm \<mapsto> personalTotal)) Map.empty names;
          sharedItems = filter isShared its;
          sharedTotal = foldl (\<lambda>sum item. fadd m sum (price item)) 0 sharedItems;
          sharedPerPerson = fdiv m sharedTotal (of_nat persons)
      in map (\<lambda>nm.
           let personalTotal = (case personalAmounts nm of None \<Rightarrow> 0
                                | Some v \<Rightarrow> if v = 0 then 0 else v);
               total = fadd m personalTotal sharedPerPerson;
               tipAmount = fmul m total (fdiv m tipPct 100)
           in \<lparr>name = nm, amount = fdiv m (Math_round (fmul m (fadd m total tipAmount) 10)) 10\<rparr>)
         names)"

definition calculatePersonAmount :: "arith \<Rightarrow> BillItem list \<Rightarrow> rat \<Rightarrow> jsstring \<Rightarrow> rat \<Rightarrow> rat" where
  "calculatePersonAmount m its tipPct nm persons =
     (let amount0 = 0;
          personalItems = filter (\<lambda>item. \<not> isShared item \<and> person item = nm) its;
          amount1 = fadd m amount0 (foldl (\<lambda>sum item. fadd m sum (price item)) 0 personalItems);
          sharedItems = filter isShared its;
          sharedAmount = foldl (\<lambda>sum item. fadd m sum (price item)) 0 sharedItems;
          amount2 = fadd m amount1 (fdiv m sharedAmount persons);
          amount3 = fadd m amount2 (fmul m amount2 (fdiv m tipPct 100))
      in fdiv m (Math_round (fmul m amount3 10)) 10)"

subsection \<open>Reconciliation\<close>

text \<open>
  \<open>adjustAmount\<close> is called by \<open>splitBill\<close> only, on the array that \<open>calculateItems\<close> has
  just built: its elements are distinct objects, so the assignment to \<open>maxItem.amount\<close>
  changes one position of the list. The \<^verbatim>\<open>reduce\<close> without initial value starts at the
  first element; \<open>maxItem\<close> is the position of the object it returns. The constants
  \<open>currentTotal\<close>, \<open>difference\<close> and \<open>maxItem\<close> of the function body are definitions of
  their own, so that the properties can name them.
\<close>

definition currentTotal :: "arith \<Rightarrow> PersonItem list \<Rightarrow> rat" where
  "currentTotal m its = foldl (\<lambda>sum item. fadd m sum (amount item)) 0 its"

definition difference :: "arith \<Rightarrow> rat \<Rightarrow> PersonItem list \<Rightarrow> rat" where
  "difference m totalAmt its =
     fdiv m (Math_round (fmul m (fsub m totalAmt (currentTotal m its)) 10)) 10"

definition maxItem :: "PersonItem list \<Rightarrow> nat" where
  "maxItem its =
     foldl (\<lambda>mx i. if amount (its ! i) > amount (its ! mx) then i else mx) 0 [1..<length its]"

definition adjustAmount :: "arith \<Rightarrow> rat \<Rightarrow> PersonItem list \<Rightarrow> PersonItem list" where
  "adjustAmount m totalAmt its =
     (let difference = difference m totalAmt its
      in if difference \<noteq> 0 \<and> length its > 0 then
           let maxItem = maxItem its
           in its[maxItem := (its ! maxItem)
                    \<lparr>amount := fdiv m (Math_round (fmul m (fadd m (amount (its ! maxItem)) difference) 10)) 10\<rparr>]
         else its)"

subsection \<open>splitBill\<close>

definition splitBill :: "arith \<Rightarrow> BillInput \<Rightarrow> BillOutput" where
  "splitBill m input =
     (let date' = formatDate (BillInput.date input);
          location' = BillInput.location input;
          subTotal' = calculateSubTotal m (BillInput.items input);
          tip' = calculateTip m subTotal' (tipPercentage input);
          totalAmount' = fadd m subTotal' tip';
          items' = calculateItems m (BillInput.items input) (tipPercentage input);
          items' = adjustAmount m totalAmount' items'
      in \<lparr>date = date', location = location', subTotal = subTotal', tip = tip',
          totalAmount = totalAmount', items = items'\<rparr>)"

subsection \<open>Roundings to one decimal\<close>

text \<open>
  The two roundings to the nearest multiple of 0.1 that the properties below compare:
  \<open>round_half_up_tenth\<close> sends a tie towards \<open>+\<infinity>\<close>, as \<^verbatim>\<open>Math.round(x * 10) / 10\<close> does in
  exact arithmetic, and \<open>round_half_away_tenth\<close> sends it away from zero, which is the
  rounding that the specification names.
\<close>

definition round_half_up_tenth :: "rat \<Rightarrow> rat" where
  "round_half_up_tenth x = of_int \<lfloor>x * 10 + 1 / 2\<rfloor> / 10"

definition round_half_away_tenth :: "rat \<Rightarrow> rat" where
  "round_half_away_tenth x = sgn x * of_int \<lfloor>\<bar>x\<bar> * 10 + 1 / 2\<rfloor> / 10"

subsection \<open>Leading zeros\<close>

text \<open>
  A string of digits without its leading zeros, the way the specification describes the
  year, month and day of a formatted date; a string of zeros keeps one.
\<close>

definition strip_zeros :: "jsstring \<Rightarrow> jsstring" where
  "strip_zeros s = (let t = dropWhile (\<lambda>c. c = 48) s in if t = [] then [48] else t)"

subsection \<open>A bill of two personal items\<close>

text \<open>
  Coffee for Alice at 0.12 and tea for Bob at 0.13, without tip. The prices are the binary64
  values that the literals \<^verbatim>\<open>0.12\<close> and \<^verbatim>\<open>0.13\<close> denote.
\<close>

definition bill_12_13 :: BillInput where
  "bill_12_13 = \<lparr>BillInput.date = str ''2024-03-21'', location = str ''Cafe'', tipPercentage = 0,
     items = [PersonalBillItem (binary64 (12 / 100)) (str ''Coffee'') (str ''Alice''),
              PersonalBillItem (binary64 (13 / 100)) (str ''Tea'') (str ''Bob'')]\<rparr>"

section \<open>Properties\<close>

subsection \<open>Rounding to binary64\<close>

lemma ilog2_bounds:
  assumes "0 < a"
  shows "2 powi (ilog2 a) \<le> a \<and> a < 2 powi (ilog2 a + 1)"
proof (cases "1 \<le> a")
  case True
  define n where "n = nat \<lfloor>a\<rfloor>"
  have n1: "1 \<le> n" using True by (simp add: n_def le_nat_iff)
  have fl0: "0 \<le> \<lfloor>a\<rfloor>" using True by simp
  have nn: "(of_nat n :: rat) = of_int \<lfloor>a\<rfloor>" using fl0 by (simp add: n_def)
  have na: "of_nat n \<le> a" "a < of_nat n + 1"
    unfolding nn by linarith+
  from floorlog_bounds [of n 2] n1
  have fb: "2 ^ (floorlog 2 n - 1) \<le> n" "n < 2 ^ floorlog 2 n" by simp_all
  have fl1: "1 \<le> floorlog 2 n" using n1 by (simp add: floorlog_def)
  have il: "ilog2 a = int (floorlog 2 n - 1)"
    using True fl1 by (simp add: ilog2_def n_def)
  have lo: "(2::rat) ^ (floorlog 2 n - 1) \<le> a"
  proof -
    have "(2::rat) ^ (floorlog 2 n - 1) = of_nat (2 ^ (floorlog 2 n - 1))" by simp
    also have "\<dots> \<le> of_nat n" using fb(1) of_nat_le_iff by blast
    finally show ?thesis using na(1) by linarith
  qed
  have hi: "a < (2::rat) ^ (floorlog 2 n)"
  proof -
    have "n + 1 \<le> 2 ^ floorlog 2 n" using fb(2) by simp
    then have "(of_nat (n + 1) :: rat) \<le> of_nat (2 ^ floorlog 2 n)" using of_nat_le_iff by blast
    then show ?thesis using na(2) by simp
  qed
  have e1: "int (floorlog 2 n - 1) + 1 = int (floorlog 2 n)" using fl1 by simp
  show ?thesis unfolding il e1 using lo hi by simp
next
  case False
  define c where "c = \<lceil>1 / a\<rceil>"
  define n where "n = nat (c - 1)"
  have b1: "1 < 1 / a" using False assms by simp
  have c2: "2 \<le> c" using b1 unfolding c_def by linarith
  have cb: "1 / a \<le> of_int c" "of_int c - 1 < 1 / a" unfolding c_def by linarith+
  have n1: "1 \<le> n" using c2 by (simp add: n_def)
  have nc: "int n = c - 1" using c2 by (simp add: n_def)
  from floorlog_bounds [of n 2] n1
  have fb: "2 ^ (floorlog 2 n - 1) \<le> n" "n < 2 ^ floorlog 2 n" by simp_all
  have fl1: "1 \<le> floorlog 2 n" using n1 by (simp add: floorlog_def)
  have il: "ilog2 a = - int (floorlog 2 n)"
    using False by (simp add: ilog2_def n_def c_def)
  have "int n + 1 \<le> 2 ^ floorlog 2 n" using fb(2)
    by (metis add.commute of_nat_Suc of_nat_le_iff of_nat_numeral of_nat_power Suc_leI plus_1_eq_Suc)
  then have "c \<le> 2 ^ floorlog 2 n" using nc by simp
  then have "(of_int c :: rat) \<le> 2 ^ floorlog 2 n"
    by (metis of_int_le_iff of_int_numeral of_int_power)
  then have "1 / a \<le> 2 ^ floorlog 2 n" using cb(1) by linarith
  then have lo: "1 / 2 ^ floorlog 2 n \<le> a"
    using assms by (simp add: field_simps)
  have "(2::int) ^ (floorlog 2 n - 1) \<le> c - 1" using fb(1) nc
    by (metis of_nat_le_iff of_nat_numeral of_nat_power)
  then have "(2::rat) ^ (floorlog 2 n - 1) \<le> of_int c - 1"
    by (metis of_int_le_iff of_int_numeral of_int_power of_int_diff of_int_1)
  then have "2 ^ (floorlog 2 n - 1) < 1 / a" using cb(2) by linarith
  then have hi: "a < 1 / 2 ^ (floorlog 2 n - 1)"
    using assms by (simp add: field_simps)
  have e1: "- int (floorlog 2 n) + 1 = - int (floorlog 2 n - 1)" using fl1 by simp
  show ?thesis unfolding il e1 using lo hi by (simp add: power_int_minus_divide)
qed

lemma ilog2_unique:
  assumes "0 < a" "2 powi k \<le> a" "a < 2 powi (k + 1)"
  shows "ilog2 a = k"
proof -
  from ilog2_bounds [OF assms(1)]
  have b: "2 powi (ilog2 a) \<le> a" "a < 2 powi (ilog2 a + 1)" by simp_all
  have "(2::rat) powi k < 2 powi (ilog2 a + 1)" using assms(2) b(2) by linarith
  then have 1: "k < ilog2 a + 1"
    by (metis less_le_not_le linorder_not_less one_le_numeral power_int_increasing)
  have "(2::rat) powi (ilog2 a) < 2 powi (k + 1)" using assms(3) b(1) by linarith
  then have 2: "ilog2 a < k + 1"
    by (metis less_le_not_le linorder_not_less one_le_numeral power_int_increasing)
  from 1 2 show ?thesis by linarith
qed

lemma round_half_even_of_int: "round_half_even (of_int z) = z"
  by (simp add: round_half_even_def)

lemma round_half_even_between: "\<lfloor>x\<rfloor> \<le> round_half_even x \<and> round_half_even x \<le> \<lceil>x\<rceil>"
proof -
  have "x \<noteq> of_int \<lfloor>x\<rfloor> \<Longrightarrow> \<lceil>x\<rceil> = \<lfloor>x\<rfloor> + 1"
    by (metis ceiling_altdef of_int_floor_cancel )
  moreover have "x = of_int \<lfloor>x\<rfloor> \<Longrightarrow> round_half_even x = \<lfloor>x\<rfloor>"
    by (metis round_half_even_of_int)
  ultimately show ?thesis
    by (cases "x = of_int \<lfloor>x\<rfloor>") (auto simp: round_half_even_def Let_def)
qed

lemma binary64_zero: "binary64 0 = 0"
  by (simp add: binary64_def)

lemma binary64_fix:
  assumes "y = of_int z * 2 powi (max (ilog2 \<bar>y\<bar>) (- 1022) - 52)"
  shows "binary64 y = y"
proof (cases "y = 0")
  case True
  then show ?thesis by (simp add: binary64_zero)
next
  case False
  define q :: rat where "q = 2 powi (max (ilog2 \<bar>y\<bar>) (- 1022) - 52)"
  have q0: "q \<noteq> 0" by (simp add: q_def)
  have "y / q = of_int z" using assms q0 unfolding q_def [symmetric] by simp
  then have "of_int (round_half_even (y / q)) * q = y"
    using assms unfolding q_def [symmetric] by (simp add: round_half_even_of_int)
  then show ?thesis using False by (simp add: binary64_def Let_def q_def)
qed

lemma binary64_idem: "binary64 (binary64 x) = binary64 x"
proof (cases "x = 0")
  case True
  then show ?thesis by (simp add: binary64_zero)
next
  case False
  define e where "e = max (ilog2 \<bar>x\<bar>) (- 1022)"
  define q :: rat where "q = 2 powi (e - 52)"
  define n where "n = round_half_even (x / q)"
  define y where "y = of_int n * q"
  have yx: "binary64 x = y"
    using False by (simp add: binary64_def Let_def y_def n_def q_def e_def)
  have q0: "0 < q" by (simp add: q_def)
  have e_ge: "- 1022 \<le> e" "ilog2 \<bar>x\<bar> \<le> e" by (simp_all add: e_def)
  have q53: "q * 2 ^ 53 = 2 powi (e + 1)"
  proof -
    have 1: "(2::rat) powi ((e - 52) + 53) = 2 powi (e - 52) * 2 powi 53"
      by (rule power_int_add) simp
    have 2: "(e - 52) + 53 = e + 1" by simp
    show ?thesis unfolding q_def using 1 unfolding 2 by simp
  qed
  have "\<bar>x\<bar> < 2 powi (ilog2 \<bar>x\<bar> + 1)" using ilog2_bounds [of "\<bar>x\<bar>"] False by simp
  also have "\<dots> \<le> 2 powi (e + 1)" using e_ge(2) by (intro power_int_increasing) simp_all
  finally have "\<bar>x\<bar> < q * 2 ^ 53" using q53 by simp
  then have xq: "\<bar>x / q\<bar> < 2 ^ 53" using q0 by (simp add: field_simps)
  have nb: "\<bar>n\<bar> \<le> 2 ^ 53"
  proof -
    define B :: int where "B = 2 ^ 53"
    have B: "(of_int B :: rat) = 2 ^ 53" by (simp add: B_def)
    define t where "t = x / q"
    have "\<bar>t\<bar> < of_int B" using xq unfolding B t_def .
    then have "- of_int B \<le> t" "t \<le> of_int B" by linarith+
    then have "of_int (- B) \<le> t" "t \<le> of_int B" by simp_all
    then have "- B \<le> \<lfloor>x / q\<rfloor>" "\<lceil>x / q\<rceil> \<le> B"
      unfolding t_def by (simp_all only: le_floor_iff ceiling_le_iff)
    then have "\<bar>n\<bar> \<le> B"
      using round_half_even_between [of "x / q"] unfolding n_def by linarith
    then show ?thesis by (simp only: B_def)
  qed
  show ?thesis
  proof (cases "y = 0")
    case True
    then show ?thesis using yx by (simp add: binary64_zero)
  next
    case y0: False
    then have n0: "n \<noteq> 0" by (auto simp: y_def)
    have ay: "\<bar>y\<bar> = of_int \<bar>n\<bar> * q" using q0 by (simp add: y_def abs_mult)
    show ?thesis
    proof (cases "\<bar>n\<bar> = 2 ^ 53")
      case True
      have ay': "\<bar>y\<bar> = 2 powi (e + 1)" using ay True q53 by (simp add: mult.commute)
      have "ilog2 \<bar>y\<bar> = e + 1"
        unfolding ay' by (rule ilog2_unique) (simp_all add: power_int_strict_increasing)
      then have m: "max (ilog2 \<bar>y\<bar>) (- 1022) - 52 = (e - 52) + 1" using e_ge(1) by simp
      have q2: "(2::rat) powi ((e - 52) + 1) = q * 2"
        by (subst power_int_add) (simp_all add: q_def)
      have ev: "even n" using True
        by (metis abs_minus_cancel abs_of_nonneg dvd_minus_iff dvd_power even_numeral
            zero_le_numeral zero_le_power zero_less_numeral abs_if)
      then obtain h where h: "n = 2 * h" by (elim evenE)
      have "y = of_int h * 2 powi (max (ilog2 \<bar>y\<bar>) (- 1022) - 52)"
        unfolding m q2 by (simp add: y_def h)
      then have "binary64 y = y" by (rule binary64_fix)
      then show ?thesis using yx by simp
    next
      case False
      then have "\<bar>n\<bar> < 2 ^ 53" using nb by linarith
      then have "(of_int \<bar>n\<bar> :: rat) < 2 ^ 53"
        by (metis of_int_less_iff of_int_numeral of_int_power)
      then have "\<bar>y\<bar> < q * 2 ^ 53" using q0 unfolding ay by (simp add: mult.commute)
      then have lt: "\<bar>y\<bar> < 2 powi (e + 1)" using q53 by simp
      have "2 powi (ilog2 \<bar>y\<bar>) \<le> \<bar>y\<bar>" using ilog2_bounds [of "\<bar>y\<bar>"] y0 by simp
      then have "(2::rat) powi (ilog2 \<bar>y\<bar>) < 2 powi (e + 1)" using lt by linarith
      then have "ilog2 \<bar>y\<bar> < e + 1"
        by (metis less_le_not_le linorder_not_less one_le_numeral power_int_increasing)
      then have le: "max (ilog2 \<bar>y\<bar>) (- 1022) \<le> e" using e_ge(1) by simp
      define e' where "e' = max (ilog2 \<bar>y\<bar>) (- 1022)"
      have "e - 52 = (e' - 52) + int (nat (e - e'))" using le by (simp add: e'_def)
      then have qq: "q = 2 powi (e' - 52) * 2 ^ nat (e - e')"
        unfolding q_def by (metis power_int_add power_int_of_nat zero_neq_numeral)
      have "y = of_int (n * 2 ^ nat (e - e')) * 2 powi (e' - 52)"
        unfolding y_def by (subst qq) (simp add: mult_ac)
      then have "y = of_int (n * 2 ^ nat (e - e')) * 2 powi (max (ilog2 \<bar>y\<bar>) (- 1022) - 52)"
        unfolding e'_def .
      then have "binary64 y = y" by (rule binary64_fix)
      then show ?thesis using yx by simp
    qed
  qed
qed



lemma rnd_zero: "rnd m 0 = 0"
  by (cases m) (simp_all add: binary64_zero)

lemma rnd_idem: "rnd m (rnd m x) = rnd m x"
  by (cases m) (simp_all add: binary64_idem)


lemma fadd_zero_left: "rnd m x = x \<Longrightarrow> fadd m 0 x = x"
  by (simp add: fadd_def)

lemma fadd_zero_right: "rnd m x = x \<Longrightarrow> fadd m x 0 = x"
  by (simp add: fadd_def)

lemma foldl_fadd_representable:
  "rnd m s = s \<Longrightarrow> rnd m (foldl (\<lambda>sum item. fadd m sum (f item)) s xs)
                     = foldl (\<lambda>sum item. fadd m sum (f item)) s xs"
  by (induction xs arbitrary: s) (simp_all add: fadd_def rnd_idem)

lemma foldl_fadd_Exact:
  "foldl (\<lambda>sum item. fadd Exact sum (f item)) s xs = s + sum_list (map f xs)"
  by (induction xs arbitrary: s) (simp_all add: fadd_def)


subsection \<open>Participants\<close>

lemma Set_add_set: "set (Set_add s x) = insert x (set s)"
  by (auto simp: Set_add_def)

lemma Set_add_distinct: "distinct s \<Longrightarrow> distinct (Set_add s x)"
  by (simp add: Set_add_def)

lemma persons_fold_set:
  "set (foldl (\<lambda>s item. if \<not> isShared item then Set_add s (person item) else s) s its)
     = set s \<union> person ` {i \<in> set its. \<not> isShared i}"
  by (induction its arbitrary: s) (auto simp: Set_add_set)

lemma persons_fold_distinct:
  "distinct s \<Longrightarrow>
   distinct (foldl (\<lambda>s item. if \<not> isShared item then Set_add s (person item) else s) s its)"
  by (induction its arbitrary: s) (auto simp: Set_add_distinct)

lemma Person_1_2: "str ''Person 1'' < str ''Person 2''" "str ''Person 1'' \<noteq> str ''Person 2''"
  by (simp_all add: str_def)

lemma persons_fold_empty:
  "foldl (\<lambda>s item. if \<not> isShared item then Set_add s (person item) else s) [] its = []
     \<longleftrightarrow> (\<forall>i \<in> set its. isShared i)"
proof -
  have "foldl (\<lambda>s item. if \<not> isShared item then Set_add s (person item) else s) [] its = []
     \<longleftrightarrow> set (foldl (\<lambda>s item. if \<not> isShared item then Set_add s (person item) else s) [] its) = {}"
    by simp
  also have "\<dots> \<longleftrightarrow> (\<forall>i \<in> set its. isShared i)"
    unfolding persons_fold_set by auto
  finally show ?thesis .
qed

lemma scanPersons_set:
  "set (scanPersons its) =
     (if list_ex isShared its \<and> (\<forall>i \<in> set its. isShared i)
      then {str ''Person 1'', str ''Person 2''}
      else person ` {i \<in> set its. \<not> isShared i})"
  by (auto simp: scanPersons_def Let_def persons_fold_set persons_fold_empty Set_add_set)

lemma scanPersons_distinct: "distinct (scanPersons its)"
  by (auto simp: scanPersons_def Let_def persons_fold_distinct Set_add_distinct)

lemma scanPersons_sorted: "sorted (scanPersons its)"
  by (simp add: scanPersons_def Let_def)

lemma scanPersons_shared_only:
  assumes "list_ex isShared its" "list_all isShared its"
  shows "scanPersons its = [str ''Person 1'', str ''Person 2'']"
proof -
  have "foldl (\<lambda>s item. if \<not> isShared item then Set_add s (person item) else s) s its = s" for s
    using assms(2) by (induction its arbitrary: s) auto
  then show ?thesis
    using assms(1) Person_1_2 by (simp add: scanPersons_def Let_def Set_add_def)
qed

lemma scanPersons_nonempty:
  assumes "list_ex isShared its"
  shows "scanPersons its \<noteq> []"
proof
  assume "scanPersons its = []"
  then have "set (scanPersons its) = {}" by simp
  then show False using assms
    by (auto simp: scanPersons_set list_ex_iff split: if_splits)
qed


lemma calculateItems_names: "map PersonItem.name (calculateItems m its tipPct) = scanPersons its"
  by (simp add: calculateItems_def Let_def comp_def)

lemma update_amount_names:
  "map PersonItem.name (xs[i := (xs ! i)\<lparr>amount := v\<rparr>]) = map PersonItem.name xs"
proof (cases "i < length xs")
  case True
  then show ?thesis by (simp add: map_update list_update_same_conv)
next
  case False
  then show ?thesis by (simp add: list_update_beyond)
qed

lemma adjustAmount_names: "map PersonItem.name (adjustAmount m totalAmt xs) = map PersonItem.name xs"
  by (simp add: adjustAmount_def Let_def update_amount_names)

lemma splitBill_names:
  "map PersonItem.name (BillOutput.items (splitBill m input)) = scanPersons (BillInput.items input)"
  by (simp add: splitBill_def Let_def adjustAmount_names calculateItems_names)

text \<open>
  Claim C3. A bill with at least one shared item and no personal item has exactly the two
  synthetic participants \<open>Person 1\<close> and \<open>Person 2\<close>, and the output of \<open>splitBill\<close> has
  one entry for each of them, in that order.
\<close>

theorem C3_shared_only_fallback:
  assumes "list_ex isShared (BillInput.items input)"
      and "list_all isShared (BillInput.items input)"
  shows "scanPersons (BillInput.items input) = [str ''Person 1'', str ''Person 2'']
       \<and> map PersonItem.name (BillOutput.items (splitBill m input))
           = [str ''Person 1'', str ''Person 2'']
       \<and> str ''Person 1'' \<noteq> str ''Person 2''"
  using assms by (simp add: splitBill_names scanPersons_shared_only Person_1_2)

theorem C3_shared_only_fallback_witness:
  "list_ex isShared [SharedBillItem 30 (str ''Pizza'')]
   \<and> list_all isShared [SharedBillItem 30 (str ''Pizza'')]
   \<and> map PersonItem.name (BillOutput.items (splitBill Double
         \<lparr>BillInput.date = str ''2024-03-21'', location = str ''Home'', tipPercentage = 10,
          items = [SharedBillItem 30 (str ''Pizza'')]\<rparr>))
       = [str ''Person 1'', str ''Person 2'']"
  using C3_shared_only_fallback [of "\<lparr>BillInput.date = str ''2024-03-21'', location = str ''Home'',
          tipPercentage = 10, items = [SharedBillItem 30 (str ''Pizza'')]\<rparr>" Double]
  by simp

text \<open>
  Claim C6. For every input, the names in the output of \<open>splitBill\<close> are in ascending
  lexicographic order of their code units, no name occurs twice, and the output has one
  entry for each participant: its names are the persons of the personal items, or the two
  synthetic names when the bill has shared items only, and it has as many entries as there
  are such names.
\<close>

theorem C6_output_sorted_distinct:
  "sorted (map PersonItem.name (BillOutput.items (splitBill m input)))
   \<and> distinct (map PersonItem.name (BillOutput.items (splitBill m input)))
   \<and> set (map PersonItem.name (BillOutput.items (splitBill m input)))
       = (if list_ex isShared (BillInput.items input) \<and> list_all isShared (BillInput.items input)
          then {str ''Person 1'', str ''Person 2''}
          else person ` {i \<in> set (BillInput.items input). \<not> isShared i})
   \<and> length (BillOutput.items (splitBill m input))
       = card (if list_ex isShared (BillInput.items input) \<and> list_all isShared (BillInput.items input)
               then {str ''Person 1'', str ''Person 2''}
               else person ` {i \<in> set (BillInput.items input). \<not> isShared i})"
proof -
  let ?names = "map PersonItem.name (BillOutput.items (splitBill m input))"
  let ?P = "if list_ex isShared (BillInput.items input) \<and> list_all isShared (BillInput.items input)
            then {str ''Person 1'', str ''Person 2''}
            else person ` {i \<in> set (BillInput.items input). \<not> isShared i}"
  have names: "?names = scanPersons (BillInput.items input)" by (rule splitBill_names)
  have s: "sorted ?names" and d: "distinct ?names"
    unfolding names by (rule scanPersons_sorted, rule scanPersons_distinct)
  have st: "set ?names = ?P"
    unfolding names scanPersons_set by (simp add: list_all_iff)
  have "card (set ?names) = length ?names" by (rule distinct_card [OF d])
  then have "card ?P = length ?names" unfolding st .
  then have len: "length (BillOutput.items (splitBill m input)) = card ?P"
    by (simp only: length_map)
  show ?thesis using s d st len by blast
qed

theorem C6_output_sorted_distinct_witness:
  "set (map PersonItem.name (BillOutput.items (splitBill Double
       \<lparr>BillInput.date = str ''2024-03-21'', location = str ''Home'', tipPercentage = 10,
        items = [PersonalBillItem 12 (str ''Tea'') (str ''Bob''), SharedBillItem 30 (str ''Pizza''),
                 PersonalBillItem 8 (str ''Cake'') (str ''Alice''),
                 PersonalBillItem 5 (str ''Milk'') (str ''Bob'')]\<rparr>)))
     = {str ''Alice'', str ''Bob''}
   \<and> length (BillOutput.items (splitBill Double
       \<lparr>BillInput.date = str ''2024-03-21'', location = str ''Home'', tipPercentage = 10,
        items = [PersonalBillItem 12 (str ''Tea'') (str ''Bob''), SharedBillItem 30 (str ''Pizza''),
                 PersonalBillItem 8 (str ''Cake'') (str ''Alice''),
                 PersonalBillItem 5 (str ''Milk'') (str ''Bob'')]\<rparr>)) = 2"
proof -
  let ?its = "[PersonalBillItem 12 (str ''Tea'') (str ''Bob''), SharedBillItem 30 (str ''Pizza''),
                 PersonalBillItem 8 (str ''Cake'') (str ''Alice''),
                 PersonalBillItem 5 (str ''Milk'') (str ''Bob'')]"
  let ?input = "\<lparr>BillInput.date = str ''2024-03-21'', location = str ''Home'', tipPercentage = 10,
        items = ?its\<rparr>"
  have sel: "BillInput.items ?input = ?its" by simp
  have "person ` {i \<in> set ?its. \<not> isShared i} = set (map person (filter (\<lambda>i. \<not> isShared i) ?its))"
    by (simp only: set_map set_filter)
  also have "\<dots> = {str ''Alice'', str ''Bob''}" by (simp add: insert_commute)
  finally have persons: "(if list_ex isShared ?its \<and> list_all isShared ?its
        then {str ''Person 1'', str ''Person 2''}
        else person ` {i \<in> set ?its. \<not> isShared i}) = {str ''Alice'', str ''Bob''}"
    by simp
  have two: "card {str ''Alice'', str ''Bob''} = 2" by (simp add: str_def)
  from C6_output_sorted_distinct [of Double ?input] show ?thesis
    unfolding sel persons two by blast
qed

text \<open>
  Claim C8. When the bill has a shared item, the number of participants, which is the divisor
  of \<open>sharedPerPerson\<close> in \<open>calculateItems\<close>, is at least 1, and at least 2 when there is no
  personal item: the division is not a division by zero.
\<close>

theorem C8_shared_divisor_positive:
  assumes "list_ex isShared its"
  shows "1 \<le> length (scanPersons its)
       \<and> (list_all isShared its \<longrightarrow> 2 \<le> length (scanPersons its))
       \<and> (of_nat (length (scanPersons its)) :: rat) \<noteq> 0"
  using assms scanPersons_nonempty [OF assms] scanPersons_shared_only [of its]
  by (cases "scanPersons its") auto

theorem C8_shared_divisor_positive_witness:
  "list_ex isShared [SharedBillItem 30 (str ''Pizza''), PersonalBillItem 12 (str ''Tea'') (str ''Alice'')]
   \<and> 1 \<le> length (scanPersons
         [SharedBillItem 30 (str ''Pizza''), PersonalBillItem 12 (str ''Tea'') (str ''Alice'')])
   \<and> list_all isShared [SharedBillItem 30 (str ''Pizza'')]
   \<and> 2 \<le> length (scanPersons [SharedBillItem 30 (str ''Pizza'')])"
  using C8_shared_divisor_positive
          [of "[SharedBillItem 30 (str ''Pizza''), PersonalBillItem 12 (str ''Tea'') (str ''Alice'')]"]
        C8_shared_divisor_positive [of "[SharedBillItem 30 (str ''Pizza'')]"]
  by simp

subsection \<open>Amounts, subtotal and tip\<close>

lemma foldl_map_upd:
  "foldl (\<lambda>pa nm. pa(nm \<mapsto> g nm)) pa0 names k = (if k \<in> set names then Some (g k) else pa0 k)"
  by (induction names arbitrary: pa0) auto

lemma calculateItems_eq:
  "calculateItems m its tipPct =
     map (\<lambda>nm. \<lparr>name = nm,
                amount = calculatePersonAmount m its tipPct nm (of_nat (length (scanPersons its)))\<rparr>)
         (scanPersons its)"
proof -
  let ?pt = "\<lambda>nm. foldl (\<lambda>sum item. fadd m sum (price item)) 0
                     (filter (\<lambda>item. \<not> isShared item \<and> person item = nm) its)"
  have rep: "fadd m 0 (?pt nm) = ?pt nm" for nm
    by (rule fadd_zero_left, rule foldl_fadd_representable) (simp add: rnd_zero)
  have look: "nm \<in> set (scanPersons its) \<Longrightarrow>
      (case foldl (\<lambda>pa nm. pa(nm \<mapsto> ?pt nm)) Map.empty (scanPersons its) nm of
         None \<Rightarrow> 0 | Some v \<Rightarrow> if v = 0 then 0 else v) = ?pt nm" for nm
    by (simp add: foldl_map_upd [where g = ?pt])
  show ?thesis
    unfolding calculateItems_def calculatePersonAmount_def Let_def
    by (rule map_cong [OF refl]) (simp only: look rep)
qed

lemma floor_half: "\<lfloor>1 / 2 :: rat\<rfloor> = 0"
  by (rule floor_unique) simp_all

lemma Math_round_zero: "Math_round 0 = 0"
  by (simp add: Math_round_def floor_half)

lemma amount_formula:
  "Math_round ((t + t * (p / 100)) * 10) / 10 = round_half_up_tenth (t * (1 + p / 100))"
  by (simp add: Math_round_def round_half_up_tenth_def algebra_simps)

text \<open>
  Claim C10. The helper \<open>calculatePersonAmount\<close>, called with the number of participants,
  returns for every participant the amount that \<open>calculateItems\<close> computes for that name, in
  both arithmetics: \<open>calculateItems\<close> is the list of its results over the participants.
\<close>

theorem C10_calculatePersonAmount_agrees:
  "calculateItems m its tipPct =
     map (\<lambda>nm. \<lparr>name = nm,
                amount = calculatePersonAmount m its tipPct nm (of_nat (length (scanPersons its)))\<rparr>)
         (scanPersons its)"
  by (rule calculateItems_eq)

text \<open>
  In exact arithmetic the amount of a participant \<open>p\<close> before reconciliation is
  \<open>(personalTotal p + sharedTotal / participantCount) * (1 + tipPercentage / 100)\<close> rounded to
  the nearest 0.1 (a tie upwards): the tip is taken on the participant's own share.
\<close>

lemma amount_per_person_Exact:
  "calculateItems Exact its tipPct =
     map (\<lambda>p. \<lparr>name = p,
               amount = round_half_up_tenth
                 ((sum_list (map price (filter (\<lambda>item. \<not> isShared item \<and> person item = p) its))
                   + sum_list (map price (filter isShared its)) / of_nat (length (scanPersons its)))
                  * (1 + tipPct / 100))\<rparr>)
         (scanPersons its)"
proof -
  have "calculatePersonAmount Exact its tipPct p n =
      round_half_up_tenth
        ((sum_list (map price (filter (\<lambda>item. \<not> isShared item \<and> person item = p) its))
          + sum_list (map price (filter isShared its)) / n) * (1 + tipPct / 100))" for p n
    unfolding calculatePersonAmount_def Let_def foldl_fadd_Exact
    unfolding fadd_def fmul_def fdiv_def rnd.simps add_0_left
    by (rule amount_formula)
  then show ?thesis unfolding calculateItems_eq by simp
qed

text \<open>
  Claim C2 fails in binary64. For one personal item of 13 and a tip of 85 percent the share
  with its tip is \<open>13 * 1.85 = 24.05\<close>, which rounds to 24.1. The code computes the tip
  \<open>13 * 0.85\<close> as 11.049999999999999, below 11.05, and the sum as 24.049999999999997; ten
  times the sum rounds to 240, and the amount is 24. In exact arithmetic the code returns
  24.1.
\<close>

theorem C2_amount_misses_tie:
  "calculateItems Double [PersonalBillItem 13 (str ''Dinner'') (str ''Alice'')] 85
     = [\<lparr>name = str ''Alice'', amount = 24\<rparr>]
   \<and> calculateItems Exact [PersonalBillItem 13 (str ''Dinner'') (str ''Alice'')] 85
     = [\<lparr>name = str ''Alice'', amount = 241 / 10\<rparr>]
   \<and> round_half_up_tenth ((13 + 0 / 1) * (1 + 85 / 100)) = 241 / 10
   \<and> round_half_away_tenth ((13 + 0 / 1) * (1 + 85 / 100)) = 241 / 10
   \<and> fmul Double 13 (fdiv Double 85 100) < 1105 / 100
   \<and> (24 :: rat) \<noteq> 241 / 10"
proof -
  let ?its = "[PersonalBillItem 13 (str ''Dinner'') (str ''Alice'')]"
  have names: "scanPersons ?its = [str ''Alice'']"
    by (simp add: scanPersons_def Let_def Set_add_def)
  have double: "calculatePersonAmount Double ?its 85 (str ''Alice'') 1 = 24"
    by code_simp
  have exact: "calculatePersonAmount Exact ?its 85 (str ''Alice'') 1 = 241 / 10"
    by code_simp
  have formula: "round_half_up_tenth ((13 + 0 / 1) * (1 + 85 / 100)) = 241 / 10"
      "round_half_away_tenth ((13 + 0 / 1) * (1 + 85 / 100)) = 241 / 10"
    by code_simp+
  have product: "fmul Double 13 (fdiv Double 85 100) < 1105 / 100"
    by code_simp
  show ?thesis
    unfolding calculateItems_eq names
    using double exact formula product by simp
qed







lemma calculateSubTotal_representable: "rnd m (calculateSubTotal m its) = calculateSubTotal m its"
  unfolding calculateSubTotal_def by (rule foldl_fadd_representable) (simp add: rnd_zero)

lemma calculateTip_zero: "calculateTip m s 0 = 0"
  by (simp add: calculateTip_def Let_def fmul_def fdiv_def rnd_zero Math_round_zero)

text \<open>
  Claim C7. \<open>subTotal\<close> is the sum of the prices, added from left to right and never passed
  to \<^verbatim>\<open>Math.round\<close> (the exact sum in exact arithmetic); \<open>totalAmount\<close> is \<open>subTotal + tip\<close>,
  not rounded to a decimal; and with a tip percentage of 0 the tip is 0 and \<open>totalAmount\<close> is
  \<open>subTotal\<close>, in both arithmetics.
\<close>

theorem C7_subtotal_and_total:
  "subTotal (splitBill m input) = foldl (\<lambda>total p. fadd m total p) 0 (map price (BillInput.items input))
   \<and> subTotal (splitBill Exact input) = sum_list (map price (BillInput.items input))
   \<and> totalAmount (splitBill m input) = fadd m (subTotal (splitBill m input)) (tip (splitBill m input))
   \<and> totalAmount (splitBill Exact input) = subTotal (splitBill Exact input) + tip (splitBill Exact input)
   \<and> (tipPercentage input = 0 \<longrightarrow>
        tip (splitBill m input) = 0 \<and> totalAmount (splitBill m input) = subTotal (splitBill m input))"
proof -
  have 1: "subTotal (splitBill m input) = calculateSubTotal m (BillInput.items input)" for m
    by (simp add: splitBill_def Let_def)
  have 2: "calculateSubTotal m its = foldl (\<lambda>total p. fadd m total p) 0 (map price its)" for m its
    by (simp add: calculateSubTotal_def foldl_map)
  have 3: "totalAmount (splitBill m input) = fadd m (subTotal (splitBill m input)) (tip (splitBill m input))" for m
    by (simp add: splitBill_def Let_def)
  have 4: "tip (splitBill m input) = calculateTip m (subTotal (splitBill m input)) (tipPercentage input)"
    by (simp add: splitBill_def Let_def)
  have 5: "tipPercentage input = 0 \<Longrightarrow> tip (splitBill m input) = 0"
    by (simp add: 4 calculateTip_zero)
  have 6: "tipPercentage input = 0 \<Longrightarrow> totalAmount (splitBill m input) = subTotal (splitBill m input)"
    by (simp add: 3 5 1 fadd_zero_right calculateSubTotal_representable)
  have 7: "subTotal (splitBill Exact input) = sum_list (map price (BillInput.items input))"
    by (simp add: 1 calculateSubTotal_def foldl_fadd_Exact)
  show ?thesis using 1 2 3 3 [of Exact] 5 6 7 by (simp add: fadd_def)
qed


theorem C7_subtotal_and_total_witness:
  "tipPercentage \<lparr>BillInput.date = str ''2024-03-21'', location = str ''Home'', tipPercentage = 0,
          items = [SharedBillItem 30 (str ''Pizza'')]\<rparr> = 0
   \<and> tip (splitBill Double \<lparr>BillInput.date = str ''2024-03-21'', location = str ''Home'',
          tipPercentage = 0, items = [SharedBillItem 30 (str ''Pizza'')]\<rparr>) = 0
   \<and> totalAmount (splitBill Double \<lparr>BillInput.date = str ''2024-03-21'', location = str ''Home'',
          tipPercentage = 0, items = [SharedBillItem 30 (str ''Pizza'')]\<rparr>)
     = subTotal (splitBill Double \<lparr>BillInput.date = str ''2024-03-21'', location = str ''Home'',
          tipPercentage = 0, items = [SharedBillItem 30 (str ''Pizza'')]\<rparr>)"
proof -
  let ?input = "\<lparr>BillInput.date = str ''2024-03-21'', location = str ''Home'',
          tipPercentage = 0, items = [SharedBillItem 30 (str ''Pizza'')]\<rparr>"
  have zero: "tipPercentage ?input = 0" by simp
  from C7_subtotal_and_total [of Double ?input] zero show ?thesis by blast
qed

subsection \<open>Reconciliation\<close>

lemma first_max_fold:
  fixes a :: "nat \<Rightarrow> rat"
  defines "r \<equiv> \<lambda>n. foldl (\<lambda>mx i. if a i > a mx then i else mx) 0 [1..<n]"
  assumes "1 \<le> n"
  shows "r n < n \<and> (\<forall>j<n. a j \<le> a (r n)) \<and> (\<forall>j<r n. a j < a (r n))"
  using assms(2)
proof (induction n rule: dec_induct)
  case base
  show ?case by (simp add: r_def)
next
  case (step n)
  have rs: "r (Suc n) = (if a n > a (r n) then n else r n)"
    using step.hyps by (simp add: r_def)
  show ?case
  proof (cases "a n > a (r n)")
    case True
    then have eq: "r (Suc n) = n" by (simp add: rs)
    have "a j < a n" if "j < n" for j
      using step.IH that True by (meson le_less_trans)
    then show ?thesis unfolding eq by (auto simp: less_Suc_eq intro: less_imp_le)
  next
    case False
    then have eq: "r (Suc n) = r n" by (simp add: rs)
    show ?thesis unfolding eq using step.IH False by (auto simp: less_Suc_eq)
  qed
qed

lemma maxItem_first_max:
  assumes "its \<noteq> []"
  shows "maxItem its < length its
       \<and> (\<forall>j<length its. amount (its ! j) \<le> amount (its ! maxItem its))
       \<and> (\<forall>j<maxItem its. amount (its ! j) < amount (its ! maxItem its))"
proof -
  have "1 \<le> length its" using assms by (simp add: Suc_le_eq)
  from first_max_fold [OF this, of "\<lambda>i. amount (its ! i)"]
  show ?thesis by (simp add: maxItem_def)
qed

lemma Math_round_add_int: "Math_round (x + of_int k) = Math_round x + of_int k"
proof -
  have "x + of_int k + 1 / 2 = (x + 1 / 2) + of_int k" by simp
  moreover have "\<lfloor>(x + 1 / 2) + of_int k\<rfloor> = \<lfloor>x + 1 / 2\<rfloor> + k"
    by (rule floor_add_int [symmetric])
  ultimately show ?thesis unfolding Math_round_def by (simp only: of_int_add)
qed

lemma Math_round_of_int: "Math_round (of_int k) = of_int k"
  using Math_round_add_int [of 0 k]
  by (simp add: Math_round_def) linarith

lemma exact_adjust_changes:
  assumes "d = of_int k / 10" "k \<noteq> 0"
  shows "Math_round ((a + d) * 10) / 10 \<noteq> a"
proof
  assume h: "Math_round ((a + d) * 10) / 10 = a"
  have "(a + d) * 10 = a * 10 + of_int k" using assms(1) by (simp add: algebra_simps)
  then have "Math_round ((a + d) * 10) = Math_round (a * 10) + of_int k"
    by (simp only: Math_round_add_int)
  with h have 1: "a * 10 = Math_round (a * 10) + of_int k" by simp
  then have "a * 10 = of_int (\<lfloor>a * 10 + 1 / 2\<rfloor> + k)" by (simp add: Math_round_def)
  then have "Math_round (a * 10) = a * 10" by (metis Math_round_of_int)
  with 1 have "of_int k = (0::rat)" by simp
  then show False using assms(2) by simp
qed

lemma difference_Exact:
  "difference Exact T its = Math_round ((T - sum_list (map amount its)) * 10) / 10"
  by (simp add: difference_def currentTotal_def foldl_fadd_Exact fdiv_def fmul_def fsub_def)

text \<open>
  Claim C4. When the rounded difference is not zero and the list is not empty,
  \<open>adjustAmount\<close> changes the list at one position, \<open>maxItem\<close>: the first position whose
  amount is maximal. The new amount there is the old one plus the difference, rounded again
  to 0.1 (in exact arithmetic it differs from the old one); every other element, every name
  and the order stay. When the difference is zero or the list is empty, the list is returned
  as it is.
\<close>

theorem C4_adjust_frame:
  "(difference m T its \<noteq> 0 \<and> its \<noteq> [] \<longrightarrow>
      maxItem its < length its
      \<and> (\<forall>j<length its. amount (its ! j) \<le> amount (its ! maxItem its))
      \<and> (\<forall>j<maxItem its. amount (its ! j) < amount (its ! maxItem its))
      \<and> adjustAmount m T its = its[maxItem its := (its ! maxItem its)
           \<lparr>amount := fdiv m (Math_round (fmul m
                (fadd m (amount (its ! maxItem its)) (difference m T its)) 10)) 10\<rparr>]
      \<and> (\<forall>j<length its. j \<noteq> maxItem its \<longrightarrow> adjustAmount m T its ! j = its ! j))
   \<and> (difference m T its = 0 \<or> its = [] \<longrightarrow> adjustAmount m T its = its)
   \<and> map PersonItem.name (adjustAmount m T its) = map PersonItem.name its
   \<and> (difference Exact T its \<noteq> 0 \<and> its \<noteq> [] \<longrightarrow>
        amount (adjustAmount Exact T its ! maxItem its) \<noteq> amount (its ! maxItem its))"
proof -
  have upd: "adjustAmount m T its = its[maxItem its := (its ! maxItem its)
           \<lparr>amount := fdiv m (Math_round (fmul m
                (fadd m (amount (its ! maxItem its)) (difference m T its)) 10)) 10\<rparr>]"
    if "difference m T its \<noteq> 0" "its \<noteq> []" for m
    using that by (simp add: adjustAmount_def Let_def)
  have same: "adjustAmount m T its = its" if "difference m T its = 0 \<or> its = []"
    using that by (auto simp: adjustAmount_def Let_def)
  have changed: "amount (adjustAmount Exact T its ! maxItem its) \<noteq> amount (its ! maxItem its)"
    if d: "difference Exact T its \<noteq> 0" and ne: "its \<noteq> []"
  proof -
    obtain k :: int where k: "difference Exact T its = of_int k / 10"
      by (auto simp: difference_Exact Math_round_def)
    with d have k0: "k \<noteq> 0" by auto
    have lt: "maxItem its < length its" using maxItem_first_max [OF ne] by simp
    have "amount (adjustAmount Exact T its ! maxItem its)
        = Math_round ((amount (its ! maxItem its) + difference Exact T its) * 10) / 10"
      using lt by (simp add: upd [OF d ne] fdiv_def fmul_def fadd_def)
    then show ?thesis
      using exact_adjust_changes [OF k k0, of "amount (its ! maxItem its)"] by metis
  qed
  show ?thesis
    using upd [of m] same changed maxItem_first_max [of its] adjustAmount_names [of m T its]
    by (simp add: nth_list_update)
qed

theorem C4_adjust_frame_witness:
  "difference Exact 10 [\<lparr>name = str ''Alice'', amount = 3\<rparr>, \<lparr>name = str ''Bob'', amount = 3\<rparr>,
        \<lparr>name = str ''Carol'', amount = 2\<rparr>] \<noteq> 0
   \<and> maxItem [\<lparr>name = str ''Alice'', amount = 3\<rparr>, \<lparr>name = str ''Bob'', amount = 3\<rparr>,
        \<lparr>name = str ''Carol'', amount = 2\<rparr>] = 0
   \<and> adjustAmount Exact 10 [\<lparr>name = str ''Alice'', amount = 3\<rparr>, \<lparr>name = str ''Bob'', amount = 3\<rparr>,
        \<lparr>name = str ''Carol'', amount = 2\<rparr>]
       = [\<lparr>name = str ''Alice'', amount = 5\<rparr>, \<lparr>name = str ''Bob'', amount = 3\<rparr>,
          \<lparr>name = str ''Carol'', amount = 2\<rparr>]
   \<and> difference Exact 8 [\<lparr>name = str ''Alice'', amount = 3\<rparr>, \<lparr>name = str ''Bob'', amount = 3\<rparr>,
        \<lparr>name = str ''Carol'', amount = 2\<rparr>] = 0
   \<and> adjustAmount Exact 8 [\<lparr>name = str ''Alice'', amount = 3\<rparr>, \<lparr>name = str ''Bob'', amount = 3\<rparr>,
        \<lparr>name = str ''Carol'', amount = 2\<rparr>]
       = [\<lparr>name = str ''Alice'', amount = 3\<rparr>, \<lparr>name = str ''Bob'', amount = 3\<rparr>,
          \<lparr>name = str ''Carol'', amount = 2\<rparr>]"
proof -
  let ?its = "[\<lparr>name = str ''Alice'', amount = 3\<rparr>, \<lparr>name = str ''Bob'', amount = 3\<rparr>,
        \<lparr>name = str ''Carol'', amount = 2\<rparr>]"
  have d10: "difference Exact 10 ?its = 2" and d8: "difference Exact 8 ?its = 0"
    by code_simp+
  have mx: "maxItem ?its = 0" by code_simp
  have new: "fdiv Exact (Math_round (fmul Exact (fadd Exact 3 2) 10)) 10 = 5" by code_simp
  have "adjustAmount Exact 10 ?its = ?its[maxItem ?its := (?its ! maxItem ?its)
      \<lparr>amount := fdiv Exact (Math_round (fmul Exact
          (fadd Exact (amount (?its ! maxItem ?its)) (difference Exact 10 ?its)) 10)) 10\<rparr>]"
    using C4_adjust_frame [of Exact 10 ?its] d10 by simp
  then have a10: "adjustAmount Exact 10 ?its = [\<lparr>name = str ''Alice'', amount = 5\<rparr>,
      \<lparr>name = str ''Bob'', amount = 3\<rparr>, \<lparr>name = str ''Carol'', amount = 2\<rparr>]"
    by (simp add: mx d10 new)
  have a8: "adjustAmount Exact 8 ?its = ?its"
    using C4_adjust_frame [of Exact 8 ?its] d8 by simp
  show ?thesis using d10 d8 mx a10 a8 by simp
qed

lemma sum_list_map_update:
  fixes f :: "'a \<Rightarrow> rat"
  shows "i < length xs \<Longrightarrow> sum_list (map f (xs[i := y])) = sum_list (map f xs) - f (xs ! i) + f y"
  by (induction xs arbitrary: i) (auto split: nat.splits)

lemma tenths_sum:
  "(\<forall>x \<in> set xs. \<exists>z :: int. amount x = of_int z / 10)
     \<Longrightarrow> \<exists>z :: int. sum_list (map amount xs) = of_int z / 10"
proof (induction xs)
  case Nil
  show ?case by (rule exI [of _ 0]) simp
next
  case (Cons x xs)
  then obtain a b :: int where "amount x = of_int a / 10" "sum_list (map amount xs) = of_int b / 10"
    by auto
  then have "sum_list (map amount (x # xs)) = of_int (a + b) / 10" by (simp add: add_divide_distrib)
  then show ?case by blast
qed

lemma adjustAmount_Exact_sum:
  assumes ne: "its \<noteq> []"
      and tenths: "\<forall>x \<in> set its. \<exists>z :: int. amount x = of_int z / 10"
  shows "sum_list (map amount (adjustAmount Exact T its)) = round_half_up_tenth T"
proof -
  define S where "S = sum_list (map amount its)"
  obtain z :: int where z: "S = of_int z / 10" using tenths_sum [OF tenths] S_def by auto
  have "(T - S) * 10 = T * 10 + of_int (- z)" by (simp add: z algebra_simps)
  then have "Math_round ((T - S) * 10) = Math_round (T * 10) + of_int (- z)"
    by (simp only: Math_round_add_int)
  then have d: "difference Exact T its = round_half_up_tenth T - S"
    by (simp add: difference_Exact S_def [symmetric] z round_half_up_tenth_def Math_round_def
        diff_divide_distrib)
  show ?thesis
  proof (cases "difference Exact T its = 0")
    case True
    then show ?thesis using d by (simp add: adjustAmount_def S_def)
  next
    case False
    define i where "i = maxItem its"
    have lt: "i < length its" using maxItem_first_max [OF ne] by (simp add: i_def)
    then obtain a :: int where a: "amount (its ! i) = of_int a / 10"
      using tenths nth_mem by blast
    obtain r :: int where r: "round_half_up_tenth T = of_int r / 10"
      by (auto simp: round_half_up_tenth_def)
    have "(amount (its ! i) + difference Exact T its) * 10 = of_int (a + r - z)"
      by (simp add: a d r z algebra_simps)
    then have "Math_round ((amount (its ! i) + difference Exact T its) * 10) = of_int (a + r - z)"
      by (simp only: Math_round_of_int)
    then have new: "Math_round ((amount (its ! i) + difference Exact T its) * 10) / 10
        = amount (its ! i) + difference Exact T its"
      by (simp add: a d r z diff_divide_distrib add_divide_distrib)
    have "adjustAmount Exact T its
        = its[i := (its ! i)\<lparr>amount :=
            Math_round ((amount (its ! i) + difference Exact T its) * 10) / 10\<rparr>]"
      using False ne by (simp add: adjustAmount_def Let_def i_def fdiv_def fmul_def fadd_def)
    then have "adjustAmount Exact T its
        = its[i := (its ! i)\<lparr>amount := amount (its ! i) + difference Exact T its\<rparr>]"
      unfolding new .
    then have "sum_list (map amount (adjustAmount Exact T its))
        = S - amount (its ! i) + (amount (its ! i) + difference Exact T its)"
      using lt by (simp add: sum_list_map_update S_def)
    then show ?thesis using d by simp
  qed
qed

lemma calculateItems_tenths:
  "\<forall>x \<in> set (calculateItems m its tipPct). \<exists>z :: int. amount x = rnd m (of_int z / 10)"
  by (auto simp: calculateItems_def Let_def fdiv_def Math_round_def)


text \<open>
  In exact arithmetic the reconciliation does what it is written for: whenever there is a
  participant, the amounts of the output add up to the total rounded to one decimal.
\<close>

lemma reconciliation_Exact:
  assumes "scanPersons (BillInput.items input) \<noteq> []"
  shows "sum_list (map amount (BillOutput.items (splitBill Exact input)))
       = round_half_up_tenth (subTotal (splitBill Exact input) + tip (splitBill Exact input))"
proof -
  let ?xs = "calculateItems Exact (BillInput.items input) (tipPercentage input)"
  have "map PersonItem.name ?xs \<noteq> []" using assms by (simp add: calculateItems_names)
  then have ne: "?xs \<noteq> []" by auto
  have tenths: "\<forall>x \<in> set ?xs. \<exists>z :: int. amount x = of_int z / 10"
    using calculateItems_tenths [of Exact] by simp
  show ?thesis
    using adjustAmount_Exact_sum [OF ne tenths]
    by (simp add: splitBill_def Let_def fadd_def)
qed

lemma bill_12_13_Double:
  "splitBill Double bill_12_13 =
     \<lparr>BillOutput.date = formatDate (str ''2024-03-21''), location = str ''Cafe'',
      subTotal = 1 / 4, tip = 0, totalAmount = 1 / 4,
      items = [\<lparr>name = str ''Alice'', amount = binary64 (1 / 10)\<rparr>,
               \<lparr>name = str ''Bob'', amount = binary64 (1 / 10)\<rparr>]\<rparr>"
proof -
  define A where "A = binary64 (12 / 100)"
  define B where "B = binary64 (13 / 100)"
  define T where "T = binary64 (1 / 10)"
  have its: "BillInput.items bill_12_13 =
      [PersonalBillItem A (str ''Coffee'') (str ''Alice''), PersonalBillItem B (str ''Tea'') (str ''Bob'')]"
    by (simp add: bill_12_13_def A_def B_def)
  have names: "scanPersons [PersonalBillItem A (str ''Coffee'') (str ''Alice''),
      PersonalBillItem B (str ''Tea'') (str ''Bob'')] = [str ''Alice'', str ''Bob'']"
    by (simp add: scanPersons_def Let_def Set_add_def str_def)
  have nz: "A \<noteq> 0" "B \<noteq> 0" unfolding A_def B_def by code_simp+
  have sub: "fadd Double 0 A = A" "fadd Double 0 B = B" "fadd Double A B = 1 / 4"
    unfolding A_def B_def by code_simp+
  have zero: "fdiv Double 0 100 = 0" "fdiv Double 0 10 = 0" "fdiv Double 0 2 = 0"
      "fmul Double (1 / 4) 0 = 0" "fmul Double 0 10 = 0" "fmul Double A 0 = 0" "fmul Double B 0 = 0"
      "fadd Double (1 / 4) 0 = 1 / 4" "fadd Double A 0 = A" "fadd Double B 0 = B" "Math_round 0 = 0"
    unfolding A_def B_def by code_simp+
  have share: "Math_round (fmul Double A 10) = 1" "Math_round (fmul Double B 10) = 1"
      "fdiv Double 1 10 = T"
    unfolding A_def B_def T_def by code_simp+
  have recon: "fadd Double 0 T = T"
      "Math_round (fmul Double (fsub Double (1 / 4) (fadd Double T T)) 10) = 0"
    unfolding T_def by code_simp+
  have dist: "str ''Alice'' \<noteq> str ''Bob''" "str ''Bob'' \<noteq> str ''Alice''"
    by (simp_all add: str_def)
  have rest: "tipPercentage bill_12_13 = 0" "BillInput.date bill_12_13 = str ''2024-03-21''"
      "BillInput.location bill_12_13 = str ''Cafe''"
    by (simp_all add: bill_12_13_def)
  show ?thesis
    unfolding T_def [symmetric]
    by (simp add: splitBill_def calculateSubTotal_def calculateTip_def calculateItems_def
        adjustAmount_def difference_def currentTotal_def Let_def its names nz sub zero share
        recon dist rest)
qed

text \<open>
  Claim C1 fails in binary64. For the bill of two personal items the subtotal is 0.25 and
  both amounts are 0.1; \<open>0.25 - 0.2\<close> is computed as 0.04999999999999999, ten times that
  rounds to 0, so no amount is adjusted: the amounts add up to 0.2, and the total rounded
  to one decimal is 0.3.
\<close>

theorem C1_reconciliation_misses:
  "scanPersons (BillInput.items bill_12_13) = [str ''Alice'', str ''Bob'']
   \<and> map amount (BillOutput.items (splitBill Double bill_12_13))
       = [binary64 (1 / 10), binary64 (1 / 10)]
   \<and> subTotal (splitBill Double bill_12_13) = 1 / 4
   \<and> tip (splitBill Double bill_12_13) = 0
   \<and> totalAmount (splitBill Double bill_12_13) = 1 / 4
   \<and> sum_list (map amount (BillOutput.items (splitBill Double bill_12_13))) = binary64 (2 / 10)
   \<and> currentTotal Double (BillOutput.items (splitBill Double bill_12_13)) = binary64 (2 / 10)
   \<and> round_half_away_tenth (1 / 4) = 3 / 10
   \<and> fdiv Double (Math_round (fmul Double (1 / 4) 10)) 10 = binary64 (3 / 10)
   \<and> binary64 (2 / 10) \<noteq> binary64 (3 / 10)
   \<and> binary64 (2 / 10) \<noteq> 3 / 10"
proof -
  have names: "scanPersons (BillInput.items bill_12_13) = [str ''Alice'', str ''Bob'']"
    by (simp add: bill_12_13_def scanPersons_def Let_def Set_add_def str_def)
  have sums: "binary64 (1 / 10) + binary64 (1 / 10) = binary64 (2 / 10)"
      "fadd Double (fadd Double 0 (binary64 (1 / 10))) (binary64 (1 / 10)) = binary64 (2 / 10)"
    by code_simp+
  have rounded: "round_half_away_tenth (1 / 4) = 3 / 10"
      "fdiv Double (Math_round (fmul Double (1 / 4) 10)) 10 = binary64 (3 / 10)"
    by code_simp+
  have differ: "binary64 (2 / 10) \<noteq> binary64 (3 / 10)" "binary64 (2 / 10) \<noteq> 3 / 10"
    by code_simp+
  show ?thesis
    unfolding bill_12_13_Double
    using names sums rounded differ by (simp add: currentTotal_def)
qed

subsection \<open>Date formatting\<close>

lemma split_from_no_sep:
  "sep \<notin> set s \<Longrightarrow> split_from sep cur s = [cur @ s]"
  by (induction s arbitrary: cur) auto

lemma split_from_sep:
  "sep \<notin> set s \<Longrightarrow> split_from sep cur (s @ sep # rest) = (cur @ s) # split_from sep [] rest"
  by (induction s arbitrary: cur) auto

lemma digit_not_dash: "list_all is_digit s \<Longrightarrow> 45 \<notin> set s"
  by (auto simp: list_all_iff is_digit_def)

lemma split_date:
  assumes "list_all is_digit y" "list_all is_digit mo" "list_all is_digit d"
  shows "split (y @ [45] @ mo @ [45] @ d) 45 = [y, mo, d]"
  using assms
  by (simp add: split_def split_from_sep split_from_no_sep digit_not_dash)

lemma digits_value_snoc: "digits_value (s @ [c]) = 10 * digits_value s + (c - 48)"
  by (simp add: digits_value_def)

lemma digits_value_zero_iff:
  "list_all is_digit s \<Longrightarrow> digits_value s = 0 \<longleftrightarrow> (\<forall>c \<in> set s. c = 48)"
proof (induction s rule: rev_induct)
  case Nil
  show ?case by (simp add: digits_value_def)
next
  case (snoc c s)
  then have "48 \<le> c" by (simp add: is_digit_def)
  then have "c - 48 = 0 \<longleftrightarrow> c = 48" by auto
  with snoc show ?case by (auto simp: digits_value_snoc)
qed

lemma decimal_step:
  assumes "d < 10"
  shows "decimal (10 * v + d) = (if v = 0 then [48 + d] else decimal v @ [48 + d])"
proof (cases "v = 0")
  case True
  then show ?thesis using assms by (simp add: decimal.simps)
next
  case False
  then have "\<not> 10 * v + d < 10" by simp
  moreover have "(10 * v + d) div 10 = v" "(10 * v + d) mod 10 = d" using assms by simp_all
  ultimately show ?thesis using False by (subst decimal.simps) simp
qed

lemma strip_zeros_snoc:
  "strip_zeros (s @ [c]) =
     (if \<forall>x \<in> set s. x = 48 then [c] else strip_zeros s @ [c])"
  by (auto simp: strip_zeros_def Let_def dropWhile_append dropWhile_eq_Nil_conv)

lemma decimal_digits_value:
  "list_all is_digit s \<Longrightarrow> s \<noteq> [] \<Longrightarrow> decimal (digits_value s) = strip_zeros s"
proof (induction s rule: rev_induct)
  case Nil
  then show ?case by simp
next
  case (snoc c s)
  from snoc.prems(1) have ds: "list_all is_digit s" and dc: "is_digit c" by simp_all
  define dg where "dg = c - 48"
  from dc have lt: "dg < 10" and restore: "48 + dg = c" by (auto simp: is_digit_def dg_def)
  have val: "digits_value (s @ [c]) = 10 * digits_value s + dg"
    by (simp add: digits_value_snoc dg_def)
  have dec: "decimal (digits_value (s @ [c]))
      = (if digits_value s = 0 then [c] else decimal (digits_value s) @ [c])"
    unfolding val decimal_step [OF lt] restore ..
  show ?case
  proof (cases "\<forall>x \<in> set s. x = 48")
    case True
    then have "digits_value s = 0" using digits_value_zero_iff [OF ds] by simp
    then show ?thesis using True by (simp add: dec strip_zeros_snoc)
  next
    case False
    then have nz: "digits_value s \<noteq> 0" using digits_value_zero_iff [OF ds] by simp
    from False have "s \<noteq> []" by auto
    then have "decimal (digits_value s) = strip_zeros s" using snoc.IH ds by simp
    moreover have "strip_zeros (s @ [c]) = strip_zeros s @ [c]"
      using False by (simp only: strip_zeros_snoc if_False)
    ultimately show ?thesis using nz by (simp add: dec)
  qed
qed

text \<open>
  Claim C9. For a date of four digits, a dash, two digits, a dash and two digits,
  \<open>formatDate\<close> returns the year, the month and the day without their leading zeros, each
  followed by its character (code units 0x5E74, 0x6708 and 0x65E5).
\<close>

theorem C9_formatDate:
  assumes "list_all is_digit y" "length y = 4"
      and "list_all is_digit mo" "length mo = 2"
      and "list_all is_digit d" "length d = 2"
  shows "formatDate (y @ str ''-'' @ mo @ str ''-'' @ d)
       = Some (strip_zeros y @ [0x5E74] @ strip_zeros mo @ [0x6708] @ strip_zeros d @ [0x65E5])"
proof -
  have ne: "y \<noteq> []" "mo \<noteq> []" "d \<noteq> []" using assms by auto
  have n: "Number y = Num (digits_value y)" "Number mo = Num (digits_value mo)"
      "Number d = Num (digits_value d)"
    using assms by (simp_all add: Number_def)
  have "split (y @ str ''-'' @ mo @ str ''-'' @ d) 45 = [y, mo, d]"
    using split_date [OF assms(1,3,5)] by (simp add: str_def)
  then show ?thesis
    using assms(1,3,5) ne
    by (simp add: formatDate_def Let_def element_def n decimal_digits_value)
qed

theorem C9_formatDate_witness:
  "list_all is_digit (str ''2024'') \<and> length (str ''2024'') = 4
   \<and> list_all is_digit (str ''03'') \<and> length (str ''03'') = 2
   \<and> list_all is_digit (str ''21'') \<and> length (str ''21'') = 2
   \<and> formatDate (str ''2024-03-21'') = Some (str ''2024'' @ [0x5E74] @ str ''3'' @ [0x6708] @ str ''21'' @ [0x65E5])
   \<and> formatDate (str ''2024-01-05'') = Some (str ''2024'' @ [0x5E74] @ str ''1'' @ [0x6708] @ str ''5'' @ [0x65E5])"
  using C9_formatDate [of "str ''2024''" "str ''03''" "str ''21''"]
        C9_formatDate [of "str ''2024''" "str ''01''" "str ''05''"]
  by (simp add: str_def is_digit_def strip_zeros_def)

end
